theory Spec2Isabelle
  imports Complex_Main "HOL-Library.Signed_Division" "HOL-Library.Multiset" "HOL-Library.Monad_Syntax"
begin

section \<open>Data model shared by the two programs\<close>

text \<open>
  The two C programs \<^verbatim>\<open>vector_add2.c\<close> and \<^verbatim>\<open>mpi_vector_add3.c\<close> work on
  arrays of \<^verbatim>\<open>double\<close> that live on the C heap and are reached through pointers.

  \<^item> A \<^verbatim>\<open>double\<close> is an element of a type \<open>'a\<close> of which only the operations the
    code uses are required: \<open>0\<close>, \<open>+\<close> and \<open>*\<close> (sort \<open>{zero, plus, times}\<close>). No
    algebraic law is assumed, so whatever is proved at this sort holds for the rounded
    arithmetic of the machine; an instance with rounding is defined further down.
  \<^item> A pointer is an address; \<open>NULL\<close> is address \<open>0\<close>. The heap maps the base address
    of every live \<^verbatim>\<open>malloc\<close> block to the list of its cells. Reading or writing
    through an address that is not a live block, or past the end of a block, is undefined
    behaviour in C: the model returns \<open>None\<close> there.
  \<^item> A process has a heap, an allocation pointer, and the two output streams. What
    \<^verbatim>\<open>printf\<close> writes is kept as tokens: literal text, and numbers printed
    with \<^verbatim>\<open>%f\<close> (kept as the value printed).
\<close>

type_synonym addr = nat

definition NULL :: addr where
  "NULL = 0"

type_synonym 'a heap = "addr \<Rightarrow> 'a list option"

datatype 'a token = Text string | Num 'a

record 'a proc =
  heap :: "'a heap"
  brk :: addr
  stdout :: "'a token list"
  stderr :: "string list"

datatype error = Undefined_Behaviour | Exit int | Abort int

definition nl :: string where
  "nl = [CHR 0x0A]"

definition printf :: "'a token list \<Rightarrow> ('a, 'b) proc_scheme \<Rightarrow> ('a, 'b) proc_scheme" where
  "printf ts p = p\<lparr>stdout := stdout p @ ts\<rparr>"

definition fprintf_stderr :: "string \<Rightarrow> ('a, 'b) proc_scheme \<Rightarrow> ('a, 'b) proc_scheme" where
  "fprintf_stderr s p = p\<lparr>stderr := stderr p @ [s]\<rparr>"

text \<open>
  \<^verbatim>\<open>malloc(cells * sizeof(double))\<close>. Whether the C library finds the memory is not
  decided by the program: \<open>ok\<close> says so, given the number of cells asked for. The cells
  of a fresh block hold indeterminate values: \<open>fresh k\<close> is what cell \<open>k\<close> happens to
  hold. A successful call returns a block that no earlier pointer refers to.
\<close>

definition malloc :: "(int \<Rightarrow> bool) \<Rightarrow> (nat \<Rightarrow> 'a) \<Rightarrow> int \<Rightarrow> ('a, 'b) proc_scheme \<Rightarrow> addr \<times> ('a, 'b) proc_scheme" where
  "malloc ok fresh cells p =
     (if ok cells
      then (brk p, p\<lparr>heap := (heap p)(brk p \<mapsto> map fresh [0..<nat cells]), brk := Suc (brk p)\<rparr>)
      else (NULL, p))"

definition free :: "addr \<Rightarrow> ('a, 'b) proc_scheme \<Rightarrow> ('a, 'b) proc_scheme" where
  "free a p = p\<lparr>heap := (heap p)(a := None)\<rparr>"

section \<open>The sequential program \<^verbatim>\<open>vector_add2.c\<close>\<close>

text \<open>
  \<^verbatim>\<open>Read_n(int* n_p)\<close>: prompt, \<^verbatim>\<open>scanf("%d", n_p)\<close>, then the guard. \<open>scanned\<close> is
  the integer \<^verbatim>\<open>scanf\<close> converted (\<open>None\<close> when the input holds no integer, and then
  \<^verbatim>\<open>*n_p\<close> keeps the value \<open>n0\<close> it had). The result is the value left in \<^verbatim>\<open>*n_p\<close>, or
  \<open>Exit (-1)\<close> for \<^verbatim>\<open>exit(-1)\<close>.
\<close>

definition Read_n :: "int option \<Rightarrow> int \<Rightarrow> 'a proc \<Rightarrow> (error + int) \<times> 'a proc" where
  "Read_n scanned n0 p =
     (let p1 = printf [Text (''What'' @ [CHR 0x27] @ ''s the order of the vectors?'' @ nl)] p;
          n = (case scanned of Some v \<Rightarrow> v | None \<Rightarrow> n0)
      in if n \<le> 0
         then (Inl (Exit (- 1)), fprintf_stderr (''Order should be positive'' @ nl) p1)
         else (Inr n, p1))"

text \<open>
  \<^verbatim>\<open>Vector_sum(x, y, z, n)\<close>: \<^verbatim>\<open>for (i = 0; i < n; i++) z[i] = x[i] + y[i];\<close>
  The three pointers may be any addresses, equal ones included.
\<close>

function Vector_sum_loop :: "addr \<Rightarrow> addr \<Rightarrow> addr \<Rightarrow> int \<Rightarrow> nat \<Rightarrow> ('a::plus) heap \<Rightarrow> 'a heap option" where
  "Vector_sum_loop x y z n i h =
     (if int i < n then
        (case h x of None \<Rightarrow> None | Some xs \<Rightarrow>
         (case h y of None \<Rightarrow> None | Some ys \<Rightarrow>
          (case h z of None \<Rightarrow> None | Some zs \<Rightarrow>
             if i < length xs \<and> i < length ys \<and> i < length zs
             then Vector_sum_loop x y z n (Suc i) (h(z \<mapsto> zs[i := xs ! i + ys ! i]))
             else None)))
      else Some h)"
  by pat_completeness auto
termination
  by (relation "measure (\<lambda>(x, y, z, n, i, h). nat (n - int i))") auto

declare Vector_sum_loop.simps [simp del]

definition Vector_sum :: "addr \<Rightarrow> addr \<Rightarrow> addr \<Rightarrow> int \<Rightarrow> ('a::plus) heap \<Rightarrow> 'a heap option" where
  "Vector_sum x y z n h = Vector_sum_loop x y z n 0 h"

section \<open>The MPI library, as far as \<^verbatim>\<open>mpi_vector_add3.c\<close> calls it\<close>

text \<open>
  The program is run as \<open>comm_sz\<close> processes that all execute the same \<^verbatim>\<open>main\<close>. The
  processes of \<^verbatim>\<open>MPI_COMM_WORLD\<close> are a list, the process of rank \<open>r\<close> at index \<open>r\<close>.
  They share no memory. A collective call is reached by every process at the same place
  of the program, so a collective operation is a function of the whole list; what a
  process does between two collective calls is a function of that process alone.

  The two collective operations follow the MPI standard. (The library is not code of this
  repository.)

  \<^verbatim>\<open>MPI_Gather(sendbuf, sendcount, MPI_DOUBLE, recvbuf, recvcount, MPI_DOUBLE, root, comm)\<close>:
  the root stores the \<open>sendcount\<close> cells sent by rank \<open>r\<close> at
  \<^verbatim>\<open>recvbuf + r * recvcount\<close>; the receive buffer of any other rank is not touched. The
  call is erroneous for a negative count, for counts that differ, for a send buffer
  shorter than \<open>sendcount\<close> and for a receive buffer shorter than
  \<open>comm_sz * recvcount\<close>.
\<close>

definition gather_index :: "nat \<Rightarrow> nat \<Rightarrow> nat \<Rightarrow> nat" where
  "gather_index recvcount r i = r * recvcount + i"

definition gather_store :: "nat \<Rightarrow> 'a list list \<Rightarrow> nat \<Rightarrow> 'a list \<Rightarrow> 'a list" where
  "gather_store recvcount sendbufs r recvbuf =
     fold (\<lambda>i buf. buf[gather_index recvcount r i := sendbufs ! r ! i]) [0..<recvcount] recvbuf"

definition MPI_Gather :: "'a list list \<Rightarrow> int \<Rightarrow> 'a list \<Rightarrow> int \<Rightarrow> 'a list option" where
  "MPI_Gather sendbufs sendcount recvbuf recvcount =
     (if sendcount < 0 \<or> recvcount < 0 \<or> sendcount \<noteq> recvcount
         \<or> (\<exists>s \<in> set sendbufs. length s < nat sendcount)
         \<or> length recvbuf < length sendbufs * nat recvcount
      then None
      else Some (fold (gather_store (nat recvcount) sendbufs) [0..<length sendbufs] recvbuf))"

text \<open>
  \<^verbatim>\<open>MPI_Reduce(sendbuf, recvbuf, 1, MPI_DOUBLE, MPI_SUM, root, comm)\<close>: the root receives
  the values of all ranks combined with \<open>+\<close>; the receive buffer of any other rank is not
  touched. The standard lets the library combine the values in any order and any
  grouping: a schedule is a binary tree whose leaves are the ranks, each rank once, and
  the library's choice of schedule is a parameter of the model.
\<close>

datatype sched = Leaf nat | Node sched sched

fun leaves :: "sched \<Rightarrow> nat list" where
  "leaves (Leaf r) = [r]"
| "leaves (Node l r) = leaves l @ leaves r"

fun combine :: "sched \<Rightarrow> ('a::plus) list \<Rightarrow> 'a" where
  "combine (Leaf r) vals = vals ! r"
| "combine (Node l r) vals = combine l vals + combine r vals"

definition MPI_Reduce_SUM :: "sched \<Rightarrow> ('a::plus) list \<Rightarrow> 'a list \<Rightarrow> nat \<Rightarrow> 'a list option" where
  "MPI_Reduce_SUM sch sendbuf recvbuf root_rank =
     (if sort (leaves sch) = [0..<length sendbuf] \<and> length recvbuf = length sendbuf
         \<and> root_rank < length sendbuf
      then Some (recvbuf[root_rank := combine sch sendbuf])
      else None)"

section \<open>The parallel program \<^verbatim>\<open>mpi_vector_add3.c\<close>\<close>

text \<open>
  The state of one process: the process state above, and the three pointer variables of
  \<^verbatim>\<open>main\<close>.
\<close>

record 'a mpi_proc = "'a proc" +
  local_x :: addr
  local_y :: addr
  local_z :: addr

text \<open>
  \<^verbatim>\<open>Allocate_vectors\<close>: three blocks of \<open>local_n\<close> cells; when a \<^verbatim>\<open>malloc\<close> returned
  \<open>NULL\<close>, a message on \<^verbatim>\<open>stderr\<close> and \<^verbatim>\<open>MPI_Abort(comm, -1)\<close>.
\<close>

definition Allocate_vectors :: "(int \<Rightarrow> bool) \<Rightarrow> (nat \<Rightarrow> 'a) \<Rightarrow> int \<Rightarrow> 'a mpi_proc \<Rightarrow> (error + unit) \<times> 'a mpi_proc" where
  "Allocate_vectors ok fresh local_n p =
     (let (x, p1) = malloc ok fresh local_n p;
          (y, p2) = malloc ok fresh local_n p1;
          (z, p3) = malloc ok fresh local_n p2;
          p4 = p3\<lparr>local_x := x, local_y := y, local_z := z\<rparr>
      in if x = NULL \<or> y = NULL \<or> z = NULL
         then (Inl (Abort (- 1)),
               fprintf_stderr (''Error en la asignaci'' @ [CHR 0xC3, CHR 0xB3] @ ''n de memoria'' @ nl) p4)
         else (Inr (), p4))"

text \<open>
  \<^verbatim>\<open>Parallel_dot_product\<close>. Each process runs the loop
  \<^verbatim>\<open>local_dot_product += local_x[i] * local_y[i]\<close> from \<open>0.0\<close> on its own blocks; then
  all call \<^verbatim>\<open>MPI_Reduce\<close> with root \<open>0\<close> on \<^verbatim>\<open>global_dot_product\<close>, which every
  process initialised to \<open>0.0\<close>, and return it. The result lists what each rank returns.
\<close>

function Parallel_dot_product_loop :: "addr \<Rightarrow> addr \<Rightarrow> int \<Rightarrow> nat \<Rightarrow> 'a \<Rightarrow> ('a::{plus,times}) heap \<Rightarrow> 'a option" where
  "Parallel_dot_product_loop x y local_n i local_dot_product h =
     (if int i < local_n then
        (case h x of None \<Rightarrow> None | Some xs \<Rightarrow>
         (case h y of None \<Rightarrow> None | Some ys \<Rightarrow>
            if i < length xs \<and> i < length ys
            then Parallel_dot_product_loop x y local_n (Suc i) (local_dot_product + xs ! i * ys ! i) h
            else None))
      else Some local_dot_product)"
  by pat_completeness auto
termination
  by (relation "measure (\<lambda>(x, y, local_n, i, d, h). nat (local_n - int i))") auto

declare Parallel_dot_product_loop.simps [simp del]

definition local_dot_product :: "int \<Rightarrow> ('a::{zero,plus,times}) mpi_proc \<Rightarrow> 'a option" where
  "local_dot_product local_n p =
     Parallel_dot_product_loop (local_x p) (local_y p) local_n 0 0 (heap p)"

definition Parallel_dot_product :: "sched \<Rightarrow> int \<Rightarrow> ('a::{zero,plus,times}) mpi_proc list \<Rightarrow> 'a list option" where
  "Parallel_dot_product sch local_n ps =
     (case those (map (local_dot_product local_n) ps) of
        None \<Rightarrow> None
      | Some partials \<Rightarrow> MPI_Reduce_SUM sch partials (replicate (length ps) 0) 0)"

text \<open>
  \<^verbatim>\<open>Parallel_scalar_multiplication\<close>: one loop,
  \<^verbatim>\<open>local_x[i] *= scalar; local_y[i] *= scalar;\<close>. No communication: a function of one
  process's heap.
\<close>

function Parallel_scalar_multiplication_loop :: "addr \<Rightarrow> addr \<Rightarrow> 'a \<Rightarrow> int \<Rightarrow> nat \<Rightarrow> ('a::times) heap \<Rightarrow> 'a heap option" where
  "Parallel_scalar_multiplication_loop x y scalar local_n i h =
     (if int i < local_n then
        (case h x of None \<Rightarrow> None | Some xs \<Rightarrow>
           if i < length xs then
             (let h1 = h(x \<mapsto> xs[i := xs ! i * scalar]) in
              case h1 y of None \<Rightarrow> None | Some ys \<Rightarrow>
                if i < length ys
                then Parallel_scalar_multiplication_loop x y scalar local_n (Suc i)
                       (h1(y \<mapsto> ys[i := ys ! i * scalar]))
                else None)
           else None)
      else Some h)"
  by pat_completeness auto
termination
  by (relation "measure (\<lambda>(x, y, scalar, local_n, i, h). nat (local_n - int i))") auto

declare Parallel_scalar_multiplication_loop.simps [simp del]

definition Parallel_scalar_multiplication :: "addr \<Rightarrow> addr \<Rightarrow> 'a \<Rightarrow> int \<Rightarrow> ('a::times) heap \<Rightarrow> 'a heap option" where
  "Parallel_scalar_multiplication x y scalar local_n h =
     Parallel_scalar_multiplication_loop x y scalar local_n 0 h"

text \<open>
  \<^verbatim>\<open>Print_vector(local_b, local_n, n, title, my_rank, comm)\<close>. Rank \<open>0\<close> allocates
  \<open>b\<close> with \<open>n\<close> cells (the result of \<^verbatim>\<open>malloc\<close> is not checked); all ranks call
  \<^verbatim>\<open>MPI_Gather\<close> with root \<open>0\<close>; rank \<open>0\<close> prints the title and \<open>b[0..n-1]\<close> and frees
  \<open>b\<close>. The argument \<open>local_b\<close> selects the pointer each process passes; it is
  evaluated at the call.
\<close>

function Print_vector_loop :: "addr \<Rightarrow> int \<Rightarrow> nat \<Rightarrow> 'a mpi_proc \<Rightarrow> 'a mpi_proc option" where
  "Print_vector_loop b n i p =
     (if int i < n then
        (case heap p b of None \<Rightarrow> None | Some bs \<Rightarrow>
           if i < length bs
           then Print_vector_loop b n (Suc i) (printf [Num (bs ! i), Text '' ''] p)
           else None)
      else Some p)"
  by pat_completeness auto
termination
  by (relation "measure (\<lambda>(b, n, i, p). nat (n - int i))") auto

declare Print_vector_loop.simps [simp del]

definition Print_vector :: "(int \<Rightarrow> bool) \<Rightarrow> (nat \<Rightarrow> 'a) \<Rightarrow> ('a mpi_proc \<Rightarrow> addr) \<Rightarrow> int \<Rightarrow> int \<Rightarrow> string \<Rightarrow> 'a mpi_proc list \<Rightarrow> 'a mpi_proc list option" where
  "Print_vector ok fresh local_b local_n n title ps =
     (case ps of
        [] \<Rightarrow> None
      | p0 # others \<Rightarrow>
          (let sendbuf = map local_b ps;
               (b, p1) = malloc ok fresh n p0 in
           case those (map2 (\<lambda>p a. heap p a) (p1 # others) sendbuf) of
             None \<Rightarrow> None
           | Some sendbufs \<Rightarrow>
               (case heap p1 b of
                  None \<Rightarrow> None
                | Some recvbuf \<Rightarrow>
                    (case MPI_Gather sendbufs local_n recvbuf local_n of
                       None \<Rightarrow> None
                     | Some gathered \<Rightarrow>
                         (let p2 = p1\<lparr>heap := (heap p1)(b \<mapsto> gathered)\<rparr>;
                              p3 = printf [Text (title @ '':'' @ nl)] p2
                          in case Print_vector_loop b n 0 p3 of
                               None \<Rightarrow> None
                             | Some p4 \<Rightarrow> Some (free b (printf [Text nl] p4) # others))))))"

text \<open>
  What \<^verbatim>\<open>main\<close> takes from outside the program: the number of processes
  \<^verbatim>\<open>mpiexec\<close> started, whether \<^verbatim>\<open>malloc\<close> succeeds in a process, what the cells of
  a fresh block hold in a process, the values \<^verbatim>\<open>rand()\<close> returns in a process after
  \<^verbatim>\<open>srand(time(NULL) + my_rank)\<close> (the \<open>k\<close>-th call), the conversion of a real
  number to a \<^verbatim>\<open>double\<close> (for the casts and the literals), the schedule
  \<^verbatim>\<open>MPI_Reduce\<close> follows, and what the calls of \<^verbatim>\<open>MPI_Wtime\<close> return in process
  \<open>0\<close>.
\<close>

record 'a env =
  comm_sz :: int
  malloc_ok :: "nat \<Rightarrow> int \<Rightarrow> bool"
  fresh_cells :: "nat \<Rightarrow> nat \<Rightarrow> 'a"
  rand_values :: "nat \<Rightarrow> nat \<Rightarrow> int"
  to_double :: "real \<Rightarrow> 'a"
  reduce_sched :: sched
  wtime :: "nat \<Rightarrow> 'a"

definition init_proc :: "'a mpi_proc" where
  "init_proc = \<lparr>heap = Map.empty, brk = 1, stdout = [], stderr = [],
                 local_x = NULL, local_y = NULL, local_z = NULL\<rparr>"

text \<open>
  The loop of \<^verbatim>\<open>main\<close> that fills the two blocks:
  \<^verbatim>\<open>local_x[i] = (double)(rand() % 100); local_y[i] = (double)(rand() % 100);\<close>
\<close>

function main_generate_loop :: "(nat \<Rightarrow> int) \<Rightarrow> (real \<Rightarrow> 'a) \<Rightarrow> addr \<Rightarrow> addr \<Rightarrow> int \<Rightarrow> nat \<Rightarrow> 'a heap \<Rightarrow> 'a heap option" where
  "main_generate_loop rnd dbl x y local_n i h =
     (if int i < local_n then
        (case h x of None \<Rightarrow> None | Some xs \<Rightarrow>
           if i < length xs then
             (let h1 = h(x \<mapsto> xs[i := dbl (of_int (rnd (2 * i) smod 100))]) in
              case h1 y of None \<Rightarrow> None | Some ys \<Rightarrow>
                if i < length ys
                then main_generate_loop rnd dbl x y local_n (Suc i)
                       (h1(y \<mapsto> ys[i := dbl (of_int (rnd (2 * i + 1) smod 100))]))
                else None)
           else None)
      else Some h)"
  by pat_completeness auto
termination
  by (relation "measure (\<lambda>(rnd, dbl, x, y, local_n, i, h). nat (local_n - int i))") auto

declare main_generate_loop.simps [simp del]

definition main_local_n :: "int \<Rightarrow> int \<Rightarrow> int" where
  "main_local_n n comm_size = n sdiv comm_size"

definition title_before :: "string \<Rightarrow> string" where
  "title_before v = ''Vector '' @ v @ '' (antes de multiplicar por escalar)''"

definition title_after :: "string \<Rightarrow> string" where
  "title_after v =
     ''Vector '' @ v @ '' (despu'' @ [CHR 0xC3, CHR 0xA9] @ ''s de multiplicar por escalar)''"

text \<open>
  \<^verbatim>\<open>main\<close> from the generation of the vectors to the last \<^verbatim>\<open>printf\<close>, for all
  processes together; \<open>None\<close> is undefined behaviour in some process.
  \<^verbatim>\<open>MPI_Barrier\<close> has no effect on the state: the processes already meet at every
  collective call. The result is the list of processes and what
  \<^verbatim>\<open>Parallel_dot_product\<close> returned in each.
\<close>

definition main_compute :: "('a::{zero,plus,minus,times}) env \<Rightarrow> int \<Rightarrow> int \<Rightarrow> 'a \<Rightarrow> 'a \<Rightarrow> 'a mpi_proc list \<Rightarrow> ('a mpi_proc list \<times> 'a list) option" where
  "main_compute e n local_n scalar tstart ps1 =
     do {
       ps2 \<leftarrow> those (map2 (\<lambda>r p. map_option (\<lambda>h. p\<lparr>heap := h\<rparr>)
                 (main_generate_loop (rand_values e r) (to_double e) (local_x p) (local_y p) local_n 0 (heap p)))
               [0..<length ps1] ps1);
       ps3 \<leftarrow> Print_vector (malloc_ok e 0) (fresh_cells e 0) local_x local_n n (title_before ''x'') ps2;
       ps4 \<leftarrow> Print_vector (malloc_ok e 0) (fresh_cells e 0) local_y local_n n (title_before ''y'') ps3;
       dot_product \<leftarrow> Parallel_dot_product (reduce_sched e) local_n ps4;
       ps5 \<leftarrow> those (map (\<lambda>p. map_option (\<lambda>h. p\<lparr>heap := h\<rparr>)
                 (Parallel_scalar_multiplication (local_x p) (local_y p) scalar local_n (heap p))) ps4);
       ps6 \<leftarrow> Print_vector (malloc_ok e 0) (fresh_cells e 0) local_x local_n n (title_after ''x'') ps5;
       ps7 \<leftarrow> Print_vector (malloc_ok e 0) (fresh_cells e 0) local_y local_n n (title_after ''y'') ps6;
       (let ps8 = ps7[0 := printf [Text ''Producto punto: '', Num (dot_product ! 0), Text (nl @ nl)] (ps7 ! 0)];
            tend = wtime e 1;
            ps9 = ps8[0 := printf [Text ''Tiempo total: '', Num ((tend - tstart) * to_double e 1000),
                                   Text ('' milisegundos'' @ nl)] (ps8 ! 0)]
        in Some (ps9, dot_product))
     }"

text \<open>
  \<^verbatim>\<open>main\<close> up to the last \<^verbatim>\<open>printf\<close> (lines 37 to 84): \<open>n = 20\<close>, \<open>scalar = 2.5\<close>,
  \<^verbatim>\<open>local_n = n / comm_sz\<close>, the allocation, then the computation. A process whose
  allocation failed has called \<^verbatim>\<open>MPI_Abort\<close>, which ends all processes.
\<close>

definition main_body :: "('a::{zero,plus,minus,times}) env \<Rightarrow> (error + 'a list) \<times> 'a mpi_proc list" where
  "main_body e =
     (let n = 20;
          scalar = to_double e 2.5;
          local_n = main_local_n n (comm_sz e);
          tstart = wtime e 0;
          alloc = map (\<lambda>r. Allocate_vectors (malloc_ok e r) (fresh_cells e r) local_n init_proc)
                    [0..<nat (comm_sz e)];
          ps1 = map snd alloc
      in if \<exists>a \<in> set alloc. fst a \<noteq> Inr () then (Inl (Abort (- 1)), ps1)
         else (case main_compute e n local_n scalar tstart ps1 of
                 None \<Rightarrow> (Inl Undefined_Behaviour, ps1)
               | Some (ps9, dot_product) \<Rightarrow> (Inr dot_product, ps9)))"

text \<open>
  The whole of \<^verbatim>\<open>main\<close>: the body, then the three calls of \<^verbatim>\<open>free\<close> and
  \<^verbatim>\<open>return 0\<close> in every process.
\<close>

definition main :: "('a::{zero,plus,minus,times}) env \<Rightarrow> (error + int) \<times> 'a mpi_proc list" where
  "main e =
     (case main_body e of
        (Inl err, ps) \<Rightarrow> (Inl err, ps)
      | (Inr dot_product, ps) \<Rightarrow>
          (Inr 0, map (\<lambda>p. free (local_z p) (free (local_y p) (free (local_x p) p))) ps))"

section \<open>The arithmetic of \<^verbatim>\<open>double\<close> on integer values\<close>

text \<open>
  The definitions above leave the arithmetic open. The type \<open>idouble\<close> is the part of
  IEEE 754 binary64 that the dot product of integer data moves in: the doubles whose
  value is an integer. The sum and the product of two such doubles, rounded to nearest
  with ties to even as the machine does, is the exact integer result rounded to \<open>53\<close>
  significant bits, which is an integer again. \<open>excess53 a\<close> is the number of low bits
  that do not fit (\<open>a\<close> is a magnitude), \<open>round53\<close> the rounding, and the elements of
  \<open>idouble\<close> are the values \<open>round53\<close> takes. Magnitudes are not bounded here: binary64
  overflows above \<open>2^1024\<close>, far from every value below. \<open>double_of_int\<close> is the cast
  \<^verbatim>\<open>(double)k\<close>, \<open>Rep_idouble\<close> the integer value of a double.
\<close>

function excess53 :: "int \<Rightarrow> nat" where
  "excess53 a = (if a < 9007199254740992 then 0 else Suc (excess53 (a div 2)))"
  by pat_completeness auto
termination
  by (relation "measure nat") auto

declare excess53.simps [simp del]

definition round53 :: "int \<Rightarrow> int" where
  "round53 k =
     (let a = \<bar>k\<bar>; e = excess53 a; q = a div 2 ^ e; r = a mod 2 ^ e
      in if e = 0 then k
         else sgn k * ((if 2 * r < 2 ^ e \<or> (2 * r = 2 ^ e \<and> even q) then q else q + 1) * 2 ^ e))"

typedef idouble = "range round53"
  by blast

setup_lifting type_definition_idouble

instantiation idouble :: "{zero, plus, times}"
begin

lift_definition zero_idouble :: idouble is "round53 0"
  by simp

lift_definition plus_idouble :: "idouble \<Rightarrow> idouble \<Rightarrow> idouble" is "\<lambda>a b. round53 (a + b)"
  by simp

lift_definition times_idouble :: "idouble \<Rightarrow> idouble \<Rightarrow> idouble" is "\<lambda>a b. round53 (a * b)"
  by simp

instance ..

end



section \<open>Concrete runs\<close>

text \<open>
  Inputs at which the theorems below are instantiated and the programs are run. The
  elements are real numbers here, with the identity as conversion.
\<close>

definition console0 :: "real proc" where
  "console0 = \<lparr>heap = Map.empty, brk = 1, stdout = [], stderr = []\<rparr>"

definition heap0 :: "real heap" where
  "heap0 = [1 \<mapsto> [1, 2, 3], 2 \<mapsto> [4, 5, 6], 3 \<mapsto> [9, 9, 9]]"

definition heap1 :: "real heap" where
  "heap1 = [5 \<mapsto> [4, 5, 6], 7 \<mapsto> [1, 2, 3]]"

text \<open>
  Two processes holding the halves of \<open>x = [1, 2, 3, 4]\<close> and \<open>y = [5, 6, 7, 8]\<close>.
\<close>

definition procs0 :: "real mpi_proc list" where
  "procs0 =
     [\<lparr>heap = [1 \<mapsto> [1, 2], 2 \<mapsto> [5, 6], 3 \<mapsto> [0, 0]], brk = 4, stdout = [], stderr = [],
       local_x = 1, local_y = 2, local_z = 3\<rparr>,
      \<lparr>heap = [1 \<mapsto> [3, 4], 2 \<mapsto> [7, 8], 3 \<mapsto> [0, 0]], brk = 4, stdout = [], stderr = [],
       local_x = 1, local_y = 2, local_z = 3\<rparr>]"

text \<open>
  Two runs of \<^verbatim>\<open>main\<close>, with three and with four processes. Every \<^verbatim>\<open>malloc\<close>
  succeeds, fresh cells hold \<open>-1\<close>, and the \<open>k\<close>-th call of \<^verbatim>\<open>rand()\<close> in the
  process of rank \<open>r\<close> returns \<open>r + k\<close>.
\<close>

definition env3 :: "real env" where
  "env3 = \<lparr>comm_sz = 3, malloc_ok = (\<lambda>r c. True), fresh_cells = (\<lambda>r k. - 1),
            rand_values = (\<lambda>r k. int (r + k)), to_double = (\<lambda>v. v),
            reduce_sched = Node (Node (Leaf 0) (Leaf 1)) (Leaf 2), wtime = (\<lambda>k. of_nat k)\<rparr>"

definition env4 :: "real env" where
  "env4 = \<lparr>comm_sz = 4, malloc_ok = (\<lambda>r c. True), fresh_cells = (\<lambda>r k. - 1),
            rand_values = (\<lambda>r k. int (r + k)), to_double = (\<lambda>v. v),
            reduce_sched = Node (Node (Leaf 0) (Leaf 1)) (Node (Leaf 2) (Leaf 3)),
            wtime = (\<lambda>k. of_nat k)\<rparr>"







section \<open>What the loops compute\<close>

text \<open>
  Each loop is characterised from an arbitrary index \<open>i\<close>, by induction along its own
  recursion; the functions are the loops started at \<open>0\<close>.
\<close>

lemma Vector_sum_loop_correct:
  "h x = Some xs \<Longrightarrow> h y = Some ys \<Longrightarrow> h z = Some zs \<Longrightarrow>
   nat n \<le> length xs \<Longrightarrow> nat n \<le> length ys \<Longrightarrow> nat n \<le> length zs \<Longrightarrow>
   \<exists>h' zs'. Vector_sum_loop x y z n i h = Some h' \<and> (\<forall>a. a \<noteq> z \<longrightarrow> h' a = h a) \<and>
      h' z = Some zs' \<and> length zs' = length zs \<and>
      (\<forall>j. zs' ! j = (if i \<le> j \<and> j < nat n then xs ! j + ys ! j else zs ! j))"
proof (induction x y z n i h arbitrary: xs ys zs rule: Vector_sum_loop.induct)
  case (1 x y z n i h)
  show ?case
  proof (cases "int i < n")
    case False
    then show ?thesis using "1.prems" by (subst Vector_sum_loop.simps) auto
  next
    case True
    let ?v = "xs ! i + ys ! i"
    let ?h1 = "h(z \<mapsto> zs[i := ?v])"
    have bnd: "i < length xs" "i < length ys" "i < length zs"
      using True "1.prems" by linarith+
    obtain xs1 where x1: "?h1 x = Some xs1" "length xs1 = length xs" "\<forall>j. j \<noteq> i \<longrightarrow> xs1 ! j = xs ! j"
      using "1.prems" by (cases "x = z") auto
    obtain ys1 where y1: "?h1 y = Some ys1" "length ys1 = length ys" "\<forall>j. j \<noteq> i \<longrightarrow> ys1 ! j = ys ! j"
      using "1.prems" by (cases "y = z") auto
    have z1: "?h1 z = Some (zs[i := ?v])" by simp
    have len1: "nat n \<le> length xs1" "nat n \<le> length ys1" "nat n \<le> length (zs[i := ?v])"
      using "1.prems" x1(2) y1(2) by simp_all
    have "\<exists>h' zs'. Vector_sum_loop x y z n (Suc i) ?h1 = Some h' \<and> (\<forall>a. a \<noteq> z \<longrightarrow> h' a = ?h1 a) \<and>
      h' z = Some zs' \<and> length zs' = length (zs[i := ?v]) \<and>
      (\<forall>j. zs' ! j = (if Suc i \<le> j \<and> j < nat n then xs1 ! j + ys1 ! j else zs[i := ?v] ! j))"
      using True "1.prems"(1-3) conjI[OF bnd(1) conjI[OF bnd(2) bnd(3)]] x1(1) y1(1) z1 len1 by (rule "1.IH")
    then obtain h' zs' where r: "Vector_sum_loop x y z n (Suc i) ?h1 = Some h'"
       "\<forall>a. a \<noteq> z \<longrightarrow> h' a = ?h1 a" "h' z = Some zs'" "length zs' = length (zs[i := ?v])"
       "\<forall>j. zs' ! j = (if Suc i \<le> j \<and> j < nat n then xs1 ! j + ys1 ! j else zs[i := ?v] ! j)"
      by blast
    have step: "Vector_sum_loop x y z n i h = Vector_sum_loop x y z n (Suc i) ?h1"
      using True bnd "1.prems" by (subst Vector_sum_loop.simps) simp
    have "\<forall>j. zs' ! j = (if i \<le> j \<and> j < nat n then xs ! j + ys ! j else zs ! j)"
    proof
      fix j
      show "zs' ! j = (if i \<le> j \<and> j < nat n then xs ! j + ys ! j else zs ! j)"
      proof (cases "j = i")
        case True
        moreover have "i < nat n" using \<open>int i < n\<close> by linarith
        ultimately show ?thesis using r(5) bnd by simp
      next
        case False
        then show ?thesis using r(5) x1(3) y1(3) by auto
      qed
    qed
    then show ?thesis using r step by auto
  qed
qed

lemma Parallel_scalar_multiplication_loop_correct:
  "x \<noteq> y \<Longrightarrow> h x = Some xs \<Longrightarrow> h y = Some ys \<Longrightarrow>
   nat n \<le> length xs \<Longrightarrow> nat n \<le> length ys \<Longrightarrow>
   \<exists>xs' ys'. Parallel_scalar_multiplication_loop x y s n i h = Some (h(x \<mapsto> xs', y \<mapsto> ys')) \<and>
      length xs' = length xs \<and> length ys' = length ys \<and>
      (\<forall>j. xs' ! j = (if i \<le> j \<and> j < nat n then xs ! j * s else xs ! j)) \<and>
      (\<forall>j. ys' ! j = (if i \<le> j \<and> j < nat n then ys ! j * s else ys ! j))"
proof (induction x y s n i h arbitrary: xs ys rule: Parallel_scalar_multiplication_loop.induct)
  case (1 x y s n i h)
  show ?case
  proof (cases "int i < n")
    case False
    have "h(x \<mapsto> xs, y \<mapsto> ys) = h" using "1.prems" by (auto simp: fun_eq_iff)
    then have "Parallel_scalar_multiplication_loop x y s n i h = Some (h(x \<mapsto> xs, y \<mapsto> ys))"
      using False by (subst Parallel_scalar_multiplication_loop.simps) simp
    moreover have "\<not> (i \<le> j \<and> j < nat n)" for j using False by linarith
    ultimately show ?thesis by fastforce
  next
    case True
    let ?xs1 = "xs[i := xs ! i * s]"
    let ?ys1 = "ys[i := ys ! i * s]"
    let ?h1 = "h(x \<mapsto> ?xs1)"
    let ?h2 = "?h1(y \<mapsto> ?ys1)"
    have lt: "i < nat n" using True by linarith
    have bnd: "i < length xs" "i < length ys" using lt "1.prems" by linarith+
    have h1y: "?h1 y = Some ys" using "1.prems" by simp
    have step: "Parallel_scalar_multiplication_loop x y s n i h =
                Parallel_scalar_multiplication_loop x y s n (Suc i) ?h2"
      using True bnd "1.prems" by (subst Parallel_scalar_multiplication_loop.simps) (simp add: Let_def)
    have h2: "?h2 x = Some ?xs1" "?h2 y = Some ?ys1" using "1.prems" by simp_all
    have len: "nat n \<le> length ?xs1" "nat n \<le> length ?ys1" using "1.prems" by simp_all
    have "\<exists>xs' ys'. Parallel_scalar_multiplication_loop x y s n (Suc i) ?h2 = Some (?h2(x \<mapsto> xs', y \<mapsto> ys')) \<and>
      length xs' = length ?xs1 \<and> length ys' = length ?ys1 \<and>
      (\<forall>j. xs' ! j = (if Suc i \<le> j \<and> j < nat n then ?xs1 ! j * s else ?xs1 ! j)) \<and>
      (\<forall>j. ys' ! j = (if Suc i \<le> j \<and> j < nat n then ?ys1 ! j * s else ?ys1 ! j))"
      using True "1.prems"(2) bnd(1) refl h1y bnd(2) "1.prems"(1) h2 len by (rule "1.IH")
    then obtain xs' ys' where r:
      "Parallel_scalar_multiplication_loop x y s n (Suc i) ?h2 = Some (?h2(x \<mapsto> xs', y \<mapsto> ys'))"
      "length xs' = length ?xs1" "length ys' = length ?ys1"
      "\<forall>j. xs' ! j = (if Suc i \<le> j \<and> j < nat n then ?xs1 ! j * s else ?xs1 ! j)"
      "\<forall>j. ys' ! j = (if Suc i \<le> j \<and> j < nat n then ?ys1 ! j * s else ?ys1 ! j)"
      by blast
    have heq: "?h2(x \<mapsto> xs', y \<mapsto> ys') = h(x \<mapsto> xs', y \<mapsto> ys')"
      using "1.prems"(1) by (auto simp: fun_eq_iff)
    have xj: "xs' ! j = (if i \<le> j \<and> j < nat n then xs ! j * s else xs ! j)" for j
      using r(4) bnd lt by (cases "j = i") auto
    have yj: "ys' ! j = (if i \<le> j \<and> j < nat n then ys ! j * s else ys ! j)" for j
      using r(5) bnd lt by (cases "j = i") auto
    have res: "Parallel_scalar_multiplication_loop x y s n i h = Some (h(x \<mapsto> xs', y \<mapsto> ys'))"
      using step r(1) heq by simp
    have lens: "length xs' = length xs" "length ys' = length ys" using r(2,3) by simp_all
    from res lens xj yj show ?thesis by blast
  qed
qed

lemma Parallel_dot_product_loop_correct:
  "h x = Some xs \<Longrightarrow> h y = Some ys \<Longrightarrow> nat n \<le> length xs \<Longrightarrow> nat n \<le> length ys \<Longrightarrow>
   Parallel_dot_product_loop x y n i acc h =
     Some (foldl (\<lambda>a j. a + xs ! j * ys ! j) acc [i..<nat n])"
proof (induction x y n i acc h rule: Parallel_dot_product_loop.induct)
  case (1 x y n i acc h)
  show ?case
  proof (cases "int i < n")
    case False
    then have "[i..<nat n] = []" by simp
    then show ?thesis using False by (subst Parallel_dot_product_loop.simps) simp
  next
    case True
    have lt: "i < nat n" using True by linarith
    have bnd: "i < length xs \<and> i < length ys" using lt "1.prems" by linarith
    have step: "Parallel_dot_product_loop x y n i acc h =
                Parallel_dot_product_loop x y n (Suc i) (acc + xs ! i * ys ! i) h"
      using True bnd "1.prems" by (subst Parallel_dot_product_loop.simps) simp
    have "Parallel_dot_product_loop x y n (Suc i) (acc + xs ! i * ys ! i) h =
       Some (foldl (\<lambda>a j. a + xs ! j * ys ! j) (acc + xs ! i * ys ! i) [Suc i..<nat n])"
      using True "1.prems"(1,2) bnd "1.prems" by (rule "1.IH")
    then show ?thesis using step lt by (simp add: upt_conv_Cons)
  qed
qed

section \<open>What the gather stores, and what is printed\<close>

lemma gather_fold_nth:
  "k \<le> length s \<Longrightarrow> off + k \<le> length buf \<Longrightarrow>
   fold (\<lambda>i b. b[off + i := s ! i]) [0..<k] buf = take off buf @ take k s @ drop (off + k) buf"
proof (induction k)
  case 0
  then show ?case by simp
next
  case (Suc k)
  have "fold (\<lambda>i b. b[off + i := s ! i]) [0..<Suc k] buf =
        (take off buf @ take k s @ drop (off + k) buf)[off + k := s ! k]"
    using Suc by simp
  also have "\<dots> = take off buf @ take k s @ (drop (off + k) buf)[0 := s ! k]"
    using Suc.prems by (simp add: list_update_append)
  also have "(drop (off + k) buf)[0 := s ! k] = s ! k # drop (off + Suc k) buf"
    using Suc.prems by (cases "drop (off + k) buf") (auto simp: drop_Suc drop_tl)
  also have "take k s @ s ! k # drop (off + Suc k) buf = take (Suc k) s @ drop (off + Suc k) buf"
    using Suc.prems by (simp add: take_Suc_conv_app_nth)
  finally show ?case by simp
qed

lemma gather_store_eq:
  "c \<le> length (sendbufs ! r) \<Longrightarrow> r * c + c \<le> length buf \<Longrightarrow>
   gather_store c sendbufs r buf = take (r * c) buf @ take c (sendbufs ! r) @ drop (r * c + c) buf"
  unfolding gather_store_def gather_index_def by (rule gather_fold_nth)

lemma length_concat_take:
  "\<forall>s \<in> set ss. c \<le> length s \<Longrightarrow> length (concat (map (take c) ss)) = length ss * c"
  by (induction ss) simp_all

lemma gather_fold_eq:
  "\<forall>s \<in> set sendbufs. c \<le> length s \<Longrightarrow> length sendbufs * c \<le> length buf \<Longrightarrow> k \<le> length sendbufs \<Longrightarrow>
   fold (gather_store c sendbufs) [0..<k] buf =
     concat (map (take c) (take k sendbufs)) @ drop (k * c) buf"
proof (induction k)
  case 0
  then show ?case by simp
next
  case (Suc k)
  let ?done = "concat (map (take c) (take k sendbufs))"
  let ?mid = "?done @ drop (k * c) buf"
  have kk: "k < length sendbufs" using Suc.prems by simp
  have ck: "c \<le> length (sendbufs ! k)" using Suc.prems(1) kk by simp
  have ld: "length ?done = k * c"
    using Suc.prems(1) kk by (subst length_concat_take) (auto dest: in_set_takeD)
  have "k * c + c \<le> length sendbufs * c"
    using kk by (metis Suc_leI mult_Suc mult_le_mono1 add.commute)
  then have room: "k * c + c \<le> length buf" using Suc.prems(2) by linarith
  have lm: "length ?mid = length buf" using ld room by simp
  have "fold (gather_store c sendbufs) [0..<Suc k] buf = gather_store c sendbufs k ?mid"
    using Suc by simp
  also have "\<dots> = take (k * c) ?mid @ take c (sendbufs ! k) @ drop (k * c + c) ?mid"
    using ck room lm by (intro gather_store_eq) simp_all
  also have "take (k * c) ?mid = ?done" using ld by simp
  also have "drop (k * c + c) ?mid = drop (Suc k * c) buf"
    using ld by (simp add: add.commute)
  also have "?done @ take c (sendbufs ! k) @ drop (Suc k * c) buf =
             concat (map (take c) (take (Suc k) sendbufs)) @ drop (Suc k * c) buf"
    using kk by (simp add: take_Suc_conv_app_nth)
  finally show ?case .
qed

lemma MPI_Gather_concat:
  assumes "0 \<le> c" "\<forall>s \<in> set sendbufs. length s = nat c" "length recvbuf = length sendbufs * nat c"
  shows "MPI_Gather sendbufs c recvbuf c = Some (concat sendbufs)"
proof -
  have "fold (gather_store (nat c) sendbufs) [0..<length sendbufs] recvbuf =
        concat (map (take (nat c)) (take (length sendbufs) sendbufs)) @ drop (length sendbufs * nat c) recvbuf"
    using assms by (intro gather_fold_eq) simp_all
  moreover have "map (take (nat c)) sendbufs = sendbufs"
    using assms(2) by (simp add: map_idI)
  ultimately show ?thesis using assms by (simp add: MPI_Gather_def)
qed

lemma Print_vector_loop_eq:
  "heap p b = Some bs \<Longrightarrow> nat n \<le> length bs \<Longrightarrow>
   Print_vector_loop b n i p =
     Some (printf (concat (map (\<lambda>v. [Num v, Text '' '']) (drop i (take (nat n) bs)))) p)"
proof (induction b n i p rule: Print_vector_loop.induct)
  case (1 b n i p)
  show ?case
  proof (cases "int i < n")
    case False
    then have "drop i (take (nat n) bs) = []" by simp
    then show ?thesis using False
      by (subst Print_vector_loop.simps) (simp add: printf_def)
  next
    case True
    have lt: "i < nat n" using True by linarith
    have bnd: "i < length bs" using lt "1.prems" by linarith
    let ?p1 = "printf [Num (bs ! i), Text '' ''] p"
    have hp: "heap ?p1 b = Some bs" using "1.prems" by (simp add: printf_def)
    have step: "Print_vector_loop b n i p = Print_vector_loop b n (Suc i) ?p1"
      using True bnd "1.prems" by (subst Print_vector_loop.simps) simp
    have "Print_vector_loop b n (Suc i) ?p1 =
       Some (printf (concat (map (\<lambda>v. [Num v, Text '' '']) (drop (Suc i) (take (nat n) bs)))) ?p1)"
      using True "1.prems"(1) bnd hp "1.prems"(2) by (rule "1.IH")
    moreover have "drop i (take (nat n) bs) = bs ! i # drop (Suc i) (take (nat n) bs)"
      using lt bnd by (simp add: Cons_nth_drop_Suc[symmetric])
    ultimately show ?thesis using step by (simp add: printf_def)
  qed
qed

section \<open>Closed forms of the operations\<close>

lemma scale_block_nth:
  "length ys = length xs \<Longrightarrow> \<forall>j. ys ! j = (if j < k then xs ! j * s else xs ! j) \<Longrightarrow> k \<le> length xs \<Longrightarrow>
   ys = map (\<lambda>v. v * s) (take k xs) @ drop k xs"
  by (rule nth_equalityI) (auto simp: nth_append)

lemma Parallel_scalar_multiplication_eq:
  assumes "x \<noteq> y" "h x = Some xs" "h y = Some ys" "nat n \<le> length xs" "nat n \<le> length ys"
  shows "Parallel_scalar_multiplication x y s n h =
           Some (h(x \<mapsto> map (\<lambda>v. v * s) (take (nat n) xs) @ drop (nat n) xs,
                   y \<mapsto> map (\<lambda>v. v * s) (take (nat n) ys) @ drop (nat n) ys))"
proof -
  obtain xs' ys' where r:
    "Parallel_scalar_multiplication_loop x y s n 0 h = Some (h(x \<mapsto> xs', y \<mapsto> ys'))"
    "length xs' = length xs" "length ys' = length ys"
    "\<forall>j. xs' ! j = (if 0 \<le> j \<and> j < nat n then xs ! j * s else xs ! j)"
    "\<forall>j. ys' ! j = (if 0 \<le> j \<and> j < nat n then ys ! j * s else ys ! j)"
    using Parallel_scalar_multiplication_loop_correct [OF assms, of s 0] by blast
  have "xs' = map (\<lambda>v. v * s) (take (nat n) xs) @ drop (nat n) xs"
    using r(2,4) assms(4) by (intro scale_block_nth) simp_all
  moreover have "ys' = map (\<lambda>v. v * s) (take (nat n) ys) @ drop (nat n) ys"
    using r(3,5) assms(5) by (intro scale_block_nth) simp_all
  ultimately show ?thesis using r(1) by (simp add: Parallel_scalar_multiplication_def)
qed

lemma gather_index_block:
  "map (gather_index c r) [0..<c] = [r * c..<r * c + c]"
proof -
  have "map (gather_index c r) [0..<c] = map (\<lambda>i. i + r * c) [0..<c]"
    by (simp add: gather_index_def add.commute)
  also have "\<dots> = [r * c..<c + r * c]" by (rule map_add_upt)
  finally show ?thesis by (simp add: add.commute)
qed

lemma gather_index_blocks:
  "concat (map (\<lambda>r. map (gather_index c r) [0..<c]) [0..<w]) = [0..<w * c]"
proof (induction w)
  case 0
  then show ?case by simp
next
  case (Suc w)
  have "[0..<w * c + c] = [0..<w * c] @ [w * c..<w * c + c]"
    by (rule upt_add_eq_append) simp
  then have "[0..<Suc w * c] = [0..<w * c] @ [w * c..<w * c + c]"
    by (simp add: add.commute)
  then show ?case using Suc by (simp add: gather_index_block)
qed


lemma sdiv_exact:
  fixes n W :: int
  assumes "0 < W" "0 \<le> n" "n smod W = 0"
  shows "n sdiv W * W = n"
  using sdiv_mult_smod_eq [of n W] assms(3) by simp

lemma Allocate_vectors_blocks:
  assumes "Allocate_vectors ok fresh local_n p = (Inr (), p')"
  shows "heap p' (local_x p') = Some (map fresh [0..<nat local_n]) \<and>
         heap p' (local_y p') = Some (map fresh [0..<nat local_n]) \<and>
         heap p' (local_z p') = Some (map fresh [0..<nat local_n]) \<and>
         local_x p' \<noteq> local_y p' \<and> local_x p' \<noteq> local_z p' \<and> local_y p' \<noteq> local_z p'"
proof (cases "ok local_n \<and> brk p \<noteq> 0")
  case True
  then show ?thesis using assms
    by (simp add: Allocate_vectors_def malloc_def NULL_def Let_def) auto
next
  case False
  then have "fst (Allocate_vectors ok fresh local_n p) \<noteq> Inr ()"
    by (auto simp add: Allocate_vectors_def malloc_def NULL_def Let_def)
  then show ?thesis using assms by simp
qed

section \<open>Rounding to 53 bits is exact on small integers\<close>






section \<open>The reduction and the dot product where the arithmetic is exact\<close>















section \<open>Lists of processes\<close>

lemma those_map2_Some:
  "length xs = length ys \<Longrightarrow> (\<And>i. i < length xs \<Longrightarrow> f (xs ! i) (ys ! i) = Some (zs ! i)) \<Longrightarrow>
   length zs = length xs \<Longrightarrow> those (map2 f xs ys) = Some zs"
proof (induction xs ys arbitrary: zs rule: list_induct2)
  case Nil
  then show ?case by simp
next
  case (Cons x xs y ys)
  then obtain z zs' where zs: "zs = z # zs'" by (cases zs) auto
  have "f x y = Some z" using Cons.prems(1)[of 0] zs by simp
  moreover have "those (map2 f xs ys) = Some zs'"
  proof (rule Cons.IH)
    fix i assume "i < length xs"
    then show "f (xs ! i) (ys ! i) = Some (zs' ! i)" using Cons.prems(1)[of "Suc i"] zs by simp
  next
    show "length zs' = length xs" using Cons.prems(2) zs by simp
  qed
  ultimately show ?case using zs by simp
qed

lemma concat_nth_block:
  "\<forall>s \<in> set ss. length s = c \<Longrightarrow> r < length ss \<Longrightarrow> i < c \<Longrightarrow>
   concat ss ! (r * c + i) = ss ! r ! i"
proof (induction ss arbitrary: r)
  case Nil
  then show ?case by simp
next
  case (Cons s ss)
  show ?case
  proof (cases r)
    case 0
    then show ?thesis using Cons.prems by (simp add: nth_append)
  next
    case (Suc r')
    have "concat (s # ss) ! (Suc r' * c + i) = concat ss ! (r' * c + i)"
      using Cons.prems(1) by (simp add: nth_append)
    then show ?thesis using Cons.IH[of r'] Cons.prems Suc by simp
  qed
qed

section \<open>The claims\<close>

subsection \<open>The sequential program\<close>

text \<open>
  Claim C9. In the input path of the sequential program, \<^verbatim>\<open>Read_n\<close> guards the
  order read from standard input: when the value read is not positive, the program
  writes \<^verbatim>\<open>Order should be positive\<close> to \<^verbatim>\<open>stderr\<close> and ends with
  \<^verbatim>\<open>exit(-1)\<close>, a status that is not zero; otherwise the value read is returned
  unchanged and nothing is written to \<^verbatim>\<open>stderr\<close>. In both cases the prompt has been
  written to \<^verbatim>\<open>stdout\<close> before.
\<close>

theorem Read_n_guard:
  "Read_n (Some v) n0 p =
     (if v \<le> 0
      then (Inl (Exit (- 1)),
            p\<lparr>stdout := stdout p @ [Text (''What'' @ [CHR 0x27] @ ''s the order of the vectors?'' @ nl)],
              stderr := stderr p @ [''Order should be positive'' @ nl]\<rparr>)
      else (Inr v,
            p\<lparr>stdout := stdout p @ [Text (''What'' @ [CHR 0x27] @ ''s the order of the vectors?'' @ nl)]\<rparr>))
   \<and> Exit (- 1) \<noteq> Exit 0"
  by (simp add: Read_n_def printf_def fprintf_stderr_def)

theorem Read_n_guard_witness:
  "fst (Read_n (Some 0) 7 console0) = Inl (Exit (- 1))
   \<and> stderr (snd (Read_n (Some (- 3)) 7 console0)) = [''Order should be positive'' @ nl]
   \<and> fst (Read_n (Some 5) 7 console0) = Inr 5
   \<and> stderr (snd (Read_n (Some 5) 7 console0)) = []"
  using Read_n_guard [of 0 7 console0] Read_n_guard [of "- 3" 7 console0]
        Read_n_guard [of 5 7 console0]
  by (simp add: console0_def)

text \<open>
  \<^verbatim>\<open>Vector_sum\<close> of the sequential program: after the call, \<open>z[i] = x[i] + y[i]\<close> for
  every \<open>i\<close> in \<open>[0, n)\<close>, where \<open>x[i]\<close> and \<open>y[i]\<close> are the values before the call;
  the cells of \<open>z\<close> from \<open>n\<close> on and every other block are unchanged. The three
  pointers need not differ.
\<close>

lemma Vector_sum_elementwise:
  assumes "h x = Some xs" "h y = Some ys" "h z = Some zs"
    and "nat n \<le> length xs" "nat n \<le> length ys" "nat n \<le> length zs"
  shows "\<exists>h' zs'. Vector_sum x y z n h = Some h' \<and> h' z = Some zs' \<and> length zs' = length zs \<and>
           (\<forall>i. i < nat n \<longrightarrow> zs' ! i = xs ! i + ys ! i) \<and>
           (\<forall>i. nat n \<le> i \<longrightarrow> zs' ! i = zs ! i) \<and>
           (\<forall>a. a \<noteq> z \<longrightarrow> h' a = h a)"
proof -
  obtain h' zs' where r: "Vector_sum_loop x y z n 0 h = Some h'" "\<forall>a. a \<noteq> z \<longrightarrow> h' a = h a"
      "h' z = Some zs'" "length zs' = length zs"
      "\<forall>j. zs' ! j = (if 0 \<le> j \<and> j < nat n then xs ! j + ys ! j else zs ! j)"
    using Vector_sum_loop_correct [OF assms, of 0] by blast
  have "\<forall>i. i < nat n \<longrightarrow> zs' ! i = xs ! i + ys ! i" using r(5) by simp
  moreover have "\<forall>i. nat n \<le> i \<longrightarrow> zs' ! i = zs ! i" using r(5) by simp
  ultimately show ?thesis using r(1-4) unfolding Vector_sum_def by blast
qed

lemma Vector_sum_example:
  "map_option (\<lambda>h. h 3) (Vector_sum 1 2 3 3 heap0) = Some (Some [5, 7, 9])"
  by code_simp

subsection \<open>The parallel program: what \<^verbatim>\<open>main\<close> does and does not do\<close>

text \<open>
  Claim C2. Both programs perform elementwise vector addition: the sequential program
  computes \<open>z[i] = x[i] + y[i]\<close> for every \<open>i\<close> in \<open>[0, n)\<close> (lemma
  \<open>Vector_sum_elementwise\<close> above), and the parallel program is to do likewise on the
  blocks of its processes, next to the dot product and the multiplication by a scalar.

  The parallel program does not: its header announces \<^verbatim>\<open>Output: The sum vector z = x+y\<close>
  and \<^verbatim>\<open>main\<close> allocates \<^verbatim>\<open>local_z\<close>, but no statement writes to it. In the run
  with four processes, after the last \<^verbatim>\<open>printf\<close> the blocks \<^verbatim>\<open>local_x\<close> hold the
  scaled values, the blocks \<^verbatim>\<open>local_z\<close> still hold what \<^verbatim>\<open>malloc\<close> left in them, and
  process \<open>0\<close> has printed \<open>82\<close> numbers: four vectors of \<open>20\<close>, the dot product and the
  time; no sum vector.
\<close>

theorem mpi_main_computes_no_sum:
  "fst (main_body env4) = Inr [900, 0, 0, 0] \<and>
   map (\<lambda>p. heap p (local_x p)) (snd (main_body env4)) =
     [Some [0, 5, 10, 15, 20], Some [5 / 2, 15 / 2, 25 / 2, 35 / 2, 45 / 2],
      Some [5, 10, 15, 20, 25], Some [15 / 2, 25 / 2, 35 / 2, 45 / 2, 55 / 2]] \<and>
   map (\<lambda>p. heap p (local_z p)) (snd (main_body env4)) =
     replicate 4 (Some (map (fresh_cells env4 0) [0..<5])) \<and>
   length (filter (\<lambda>t. case t of Num v \<Rightarrow> True | Text s \<Rightarrow> False) (stdout (hd (snd (main env4))))) = 82"
  by code_simp

text \<open>
  Claim C1. When the order \<open>n\<close> of the vectors is not positive or is not a multiple of the
  number of processes, the parallel program is to report a configuration error and every
  process is to end with a status that is not zero, before any computation and any
  collective call.

  The program's header says that these errors are detected, but \<^verbatim>\<open>main\<close> holds no such
  test (\<^verbatim>\<open>Check_for_error\<close> is declared and never defined or called). With three
  processes, \<open>20 mod 3 = 2\<close>, and yet every process returns \<open>0\<close>, nothing is written to
  \<^verbatim>\<open>stderr\<close>, the reduction delivers a dot product, and the first vector printed by
  process \<open>0\<close> consists of the \<open>18\<close> gathered values followed by the two cells of \<open>b\<close>
  that no process has written.
\<close>

theorem main_accepts_indivisible_order:
  "(20::int) smod comm_sz env3 = 2 \<and>
   fst (main env3) = Inr 0 \<and>
   map stderr (snd (main env3)) = [[], [], []] \<and>
   fst (main_body env3) = Inr [978, 0, 0] \<and>
   take 42 (stdout (hd (snd (main env3)))) =
     Text (title_before ''x'' @ '':'' @ nl)
     # concat (map (\<lambda>v. [Num v, Text '' ''])
         [0, 2, 4, 6, 8, 10, 1, 3, 5, 7, 9, 11, 2, 4, 6, 8, 10, 12, - 1, - 1])
     @ [Text nl]"
  by code_simp

subsection \<open>Partition, gather and reduction\<close>

text \<open>
  Claim C3. For an order \<open>n \<ge> 0\<close> and \<open>W > 0\<close> processes with \<open>n mod W = 0\<close>, every
  process is assigned blocks of length \<open>local_n = n / W\<close> (the value \<^verbatim>\<open>main\<close> computes
  and \<^verbatim>\<open>Allocate_vectors\<close> allocates), \<open>W * local_n = n\<close>, the local index \<open>i\<close> of
  the process of rank \<open>r\<close> corresponds to the global index \<open>r * local_n + i\<close> (the place
  where the gather stores it), and the global indices of the \<open>W\<close> blocks, in ascending
  order of rank, are \<open>0, 1, \<dots>, n - 1\<close>: each index of \<open>[0, n)\<close> exactly once.
\<close>

theorem partition_covers_indices:
  assumes "0 < W" "0 \<le> n" "n smod W = 0"
    and "Allocate_vectors ok junk (main_local_n n W) p = (Inr (), p')"
  shows "main_local_n n W * W = n \<and>
         (\<exists>xs ys. heap p' (local_x p') = Some xs \<and> heap p' (local_y p') = Some ys \<and>
                   int (length xs) = main_local_n n W \<and> int (length ys) = main_local_n n W) \<and>
         concat (map (\<lambda>r. map (gather_index (nat (main_local_n n W)) r) [0..<nat (main_local_n n W)])
                   [0..<nat W]) = [0..<nat n]"
proof -
  have ex: "main_local_n n W * W = n"
    unfolding main_local_n_def using assms(1-3) by (rule sdiv_exact)
  have nn: "0 \<le> main_local_n n W"
    using assms(1,2) by (simp add: main_local_n_def signed_divide_int_def sgn_if pos_imp_zdiv_nonneg_iff)
  have "nat (W * main_local_n n W) = nat W * nat (main_local_n n W)"
    using assms(1) nn by (simp add: nat_mult_distrib)
  then have "nat W * nat (main_local_n n W) = nat n"
    using ex by (simp add: mult.commute)
  then have cover: "concat (map (\<lambda>r. map (gather_index (nat (main_local_n n W)) r) [0..<nat (main_local_n n W)])
                   [0..<nat W]) = [0..<nat n]"
    by (simp add: gather_index_blocks)
  have "\<exists>xs ys. heap p' (local_x p') = Some xs \<and> heap p' (local_y p') = Some ys \<and>
                      int (length xs) = main_local_n n W \<and> int (length ys) = main_local_n n W"
    using Allocate_vectors_blocks [OF assms(4)] nn by simp
  with ex cover show ?thesis by (intro conjI)
qed

theorem partition_covers_indices_witness:
  "main_local_n 20 4 * 4 = 20 \<and> main_local_n 20 4 = 5 \<and>
   (\<exists>xs ys. heap (snd (Allocate_vectors (\<lambda>c. True) (\<lambda>k. 0 :: real) (main_local_n 20 4) init_proc))
               (local_x (snd (Allocate_vectors (\<lambda>c. True) (\<lambda>k. 0 :: real) (main_local_n 20 4) init_proc))) = Some xs \<and>
             heap (snd (Allocate_vectors (\<lambda>c. True) (\<lambda>k. 0 :: real) (main_local_n 20 4) init_proc))
               (local_y (snd (Allocate_vectors (\<lambda>c. True) (\<lambda>k. 0 :: real) (main_local_n 20 4) init_proc))) = Some ys \<and>
             int (length xs) = main_local_n 20 4 \<and> int (length ys) = main_local_n 20 4) \<and>
   concat (map (\<lambda>r. map (gather_index (nat (main_local_n 20 4)) r) [0..<nat (main_local_n 20 4)])
             [0..<nat 4]) = [0..<nat 20]"
proof -
  have a: "(20::int) smod 4 = 0" by (simp add: signed_modulo_int_def)
  have b: "Allocate_vectors (\<lambda>c. True) (\<lambda>k. 0 :: real) (main_local_n 20 4) init_proc =
             (Inr (), snd (Allocate_vectors (\<lambda>c. True) (\<lambda>k. 0 :: real) (main_local_n 20 4) init_proc))"
    by (simp add: Allocate_vectors_def malloc_def init_proc_def NULL_def Let_def)
  have c: "main_local_n 20 4 = 5" by (simp add: main_local_n_def signed_divide_int_def)
  show ?thesis using partition_covers_indices [OF _ _ a b] c by simp
qed

text \<open>
  Claim C4. Given one block of length \<open>local_n\<close> per process and \<open>n = W * local_n\<close>, the
  gather in \<^verbatim>\<open>Print_vector\<close> assembles at process \<open>0\<close> a vector of length \<open>n\<close> that is
  the concatenation of the blocks in ascending order of rank: the cell \<open>i\<close> of the block of
  rank \<open>r\<close> is at index \<open>r * local_n + i\<close>. Process \<open>0\<close> prints the title and this vector,
  and frees it; the other processes are left as they were: they do not receive the
  vector. (The buffer is allocated with an unchecked \<^verbatim>\<open>malloc\<close>, here assumed to
  succeed; \<open>brk\<close> is an address not yet in use.)
\<close>

theorem Print_vector_gathers_in_rank_order:
  assumes ps: "ps = p0 # others"
    and ok: "ok n"
    and unused: "heap p0 (brk p0) = None"
    and blocks: "map (\<lambda>p. heap p (local_b p)) ps = map Some blocks"
    and len: "\<forall>blk \<in> set blocks. int (length blk) = local_n"
    and n: "n = int (length ps) * local_n"
  shows "Print_vector ok junk local_b local_n n title ps =
           Some (p0\<lparr>brk := Suc (brk p0),
                     stdout := stdout p0 @ [Text (title @ '':'' @ nl)]
                               @ concat (map (\<lambda>v. [Num v, Text '' '']) (concat blocks))
                               @ [Text nl]\<rparr> # others) \<and>
         int (length (concat blocks)) = n \<and>
         (\<forall>r i. r < length ps \<and> i < nat local_n \<longrightarrow>
                concat blocks ! (r * nat local_n + i) = blocks ! r ! i)"
proof -
  let ?b = "brk p0"
  let ?p1 = "p0\<lparr>heap := (heap p0)(?b \<mapsto> map junk [0..<nat n]), brk := Suc ?b\<rparr>"
  have lb: "length blocks = length ps"
    using blocks by (metis length_map)
  have len': "\<forall>s \<in> set blocks. length s = nat local_n" using len by auto
  have ln: "0 \<le> local_n" using len lb ps by (cases blocks) auto
  have lc: "length (concat blocks) = length blocks * nat local_n"
    using len' by (induction blocks) simp_all
  have nn: "nat n = length ps * nat local_n"
    using n ln by (simp add: nat_mult_distrib)
  have m: "malloc ok junk n p0 = (?b, ?p1)" using ok by (simp add: malloc_def)
  have b0: "heap p0 (local_b p0) = Some (blocks ! 0)"
    using blocks ps lb by (cases blocks) auto
  then have neq: "local_b p0 \<noteq> ?b" using unused by auto
  have send: "those (map2 (\<lambda>p a. heap p a) (?p1 # others) (map local_b ps)) = Some blocks"
  proof (rule those_map2_Some)
    show "length (?p1 # others) = length (map local_b ps)" using ps by simp
    show "length blocks = length (?p1 # others)" using lb ps by simp
    fix i assume i: "i < length (?p1 # others)"
    have "heap (ps ! i) (local_b (ps ! i)) = Some (blocks ! i)"
      using blocks i ps lb by (metis length_Cons length_map nth_map)
    then show "heap ((?p1 # others) ! i) (map local_b ps ! i) = Some (blocks ! i)"
      using i ps neq by (cases i) auto
  qed
  have recv: "heap ?p1 ?b = Some (map junk [0..<nat n])" by simp
  have g: "MPI_Gather blocks local_n (map junk [0..<nat n]) local_n = Some (concat blocks)"
    using ln len' nn lb by (intro MPI_Gather_concat) simp_all
  let ?p2 = "?p1\<lparr>heap := (heap ?p1)(?b \<mapsto> concat blocks)\<rparr>"
  let ?p3 = "printf [Text (title @ '':'' @ nl)] ?p2"
  have h3: "heap ?p3 ?b = Some (concat blocks)" by (simp add: printf_def)
  have "Print_vector_loop ?b n 0 ?p3 =
          Some (printf (concat (map (\<lambda>v. [Num v, Text '' '']) (drop 0 (take (nat n) (concat blocks))))) ?p3)"
    using h3 by (rule Print_vector_loop_eq) (simp add: lc lb nn)
  then have loop: "Print_vector_loop ?b n 0 ?p3 =
          Some (printf (concat (map (\<lambda>v. [Num v, Text '' '']) (concat blocks))) ?p3)"
    by (simp add: lc lb nn)
  have hfree: "(heap p0)(?b := None) = heap p0" using unused by (auto simp: fun_eq_iff)
  have run: "Print_vector ok junk local_b local_n n title ps =
           Some (p0\<lparr>brk := Suc (brk p0),
                     stdout := stdout p0 @ [Text (title @ '':'' @ nl)]
                               @ concat (map (\<lambda>v. [Num v, Text '' '']) (concat blocks))
                               @ [Text nl]\<rparr> # others)"
    unfolding Print_vector_def
    using ps m send recv g loop hfree
    by (simp add: printf_def free_def)
  have pos: "\<forall>r i. r < length ps \<and> i < nat local_n \<longrightarrow>
                concat blocks ! (r * nat local_n + i) = blocks ! r ! i"
    using concat_nth_block [OF len'] lb by simp
  have "int (length (concat blocks)) = n" using lc lb nn ln n by (metis int_nat_eq mult_nonneg_nonneg of_nat_0_le_iff)
  then show ?thesis using run pos by blast
qed

theorem Print_vector_gathers_in_rank_order_witness:
  "map stdout (the (Print_vector (\<lambda>c. True) (\<lambda>k. 0) local_x 2 4 ''x'' procs0)) =
     [[Text (''x:'' @ nl), Num 1, Text '' '', Num 2, Text '' '', Num 3, Text '' '', Num 4, Text '' '',
       Text nl], []] \<and>
   map heap (the (Print_vector (\<lambda>c. True) (\<lambda>k. 0) local_x 2 4 ''x'' procs0)) = map heap procs0 \<and>
   concat [[1, 2], [3, 4 :: real]] ! (1 * nat 2 + 0) = 3"
proof -
  have a: "procs0 = hd procs0 # tl procs0" by (simp add: procs0_def)
  have b: "heap (hd procs0) (brk (hd procs0)) = None" by (simp add: procs0_def)
  have c: "map (\<lambda>p. heap p (local_x p)) procs0 = map Some [[1, 2], [3, 4]]" by (simp add: procs0_def)
  have d: "\<forall>blk \<in> set [[1, 2], [3, 4 :: real]]. int (length blk) = 2" by simp
  have e: "(4::int) = int (length procs0) * 2" by (simp add: procs0_def)
  show ?thesis
    using Print_vector_gathers_in_rank_order [OF a _ b c d e, of "\<lambda>c. True" "\<lambda>k. 0" "''x''"]
    by (simp add: procs0_def)
qed







subsection \<open>Local arithmetic\<close>

text \<open>
  When both arguments of \<^verbatim>\<open>Parallel_scalar_multiplication\<close> point to the same block,
  every cell is multiplied twice; the theorems below are about two different blocks.
\<close>

lemma Parallel_scalar_multiplication_aliased:
  "map_option (\<lambda>h. h 1) (Parallel_scalar_multiplication 1 1 2 3 heap0) = Some (Some [4, 8, 12])"
  by code_simp

text \<open>
  Claim C7. After the multiplication by a scalar \<open>s\<close>, every element
  \<open>0 \<le> i < local_n\<close> of a block \<open>b\<close> handed to the routine holds its original value
  multiplied by \<open>s\<close> (\<^verbatim>\<open>b[i] *= s\<close>, that is \<open>b[i] * s\<close>); the block keeps its length
  and its cells from \<open>local_n\<close> on, and nothing but the blocks handed to the routine is
  modified.
\<close>

theorem scalar_multiplication_scales_block:
  assumes "x \<noteq> y" "h x = Some xs" "h y = Some ys"
    and "nat local_n \<le> length xs" "nat local_n \<le> length ys"
    and "b = x \<or> b = y" "h b = Some old"
  shows "\<exists>h' new. Parallel_scalar_multiplication x y scalar local_n h = Some h' \<and>
           h' b = Some new \<and> length new = length old \<and>
           (\<forall>i. i < nat local_n \<longrightarrow> new ! i = old ! i * scalar) \<and>
           (\<forall>i. nat local_n \<le> i \<and> i < length old \<longrightarrow> new ! i = old ! i) \<and>
           (\<forall>a. a \<noteq> x \<and> a \<noteq> y \<longrightarrow> h' a = h a)"
proof -
  let ?sc = "\<lambda>vs. map (\<lambda>v. v * scalar) (take (nat local_n) vs) @ drop (nat local_n) vs"
  let ?h' = "h(x \<mapsto> ?sc xs, y \<mapsto> ?sc ys)"
  have run: "Parallel_scalar_multiplication x y scalar local_n h = Some ?h'"
    using assms(1-5) by (rule Parallel_scalar_multiplication_eq)
  have old: "nat local_n \<le> length old" "?h' b = Some (?sc old)"
    using assms by auto
  have "length (?sc old) = length old" using old(1) by simp
  moreover have "\<forall>i. i < nat local_n \<longrightarrow> ?sc old ! i = old ! i * scalar"
    using old(1) by (simp add: nth_append)
  moreover have "\<forall>i. nat local_n \<le> i \<and> i < length old \<longrightarrow> ?sc old ! i = old ! i"
    using old(1) by (simp add: nth_append)
  moreover have "\<forall>a. a \<noteq> x \<and> a \<noteq> y \<longrightarrow> ?h' a = h a" by simp
  ultimately show ?thesis using run old(2) by blast
qed

theorem scalar_multiplication_scales_block_witness:
  "\<exists>h' new. Parallel_scalar_multiplication 1 2 (5 / 2) 2 heap0 = Some h' \<and>
           h' 2 = Some new \<and> length new = length [4, 5, 6 :: real] \<and>
           (\<forall>i. i < nat 2 \<longrightarrow> new ! i = [4, 5, 6] ! i * (5 / 2)) \<and>
           (\<forall>i. nat 2 \<le> i \<and> i < length [4, 5, 6 :: real] \<longrightarrow> new ! i = [4, 5, 6] ! i) \<and>
           (\<forall>a. a \<noteq> 1 \<and> a \<noteq> 2 \<longrightarrow> h' a = heap0 a)"
  by (rule scalar_multiplication_scales_block [of 1 2 heap0 "[1, 2, 3]" "[4, 5, 6]" 2 2 "[4, 5, 6]"])
     (simp_all add: heap0_def)

text \<open>
  Claim C10. One call of \<^verbatim>\<open>Parallel_scalar_multiplication\<close> mutates both vectors: for
  two blocks \<open>local_x\<close> and \<open>local_y\<close> and a scalar \<open>s\<close>, after the call the first
  \<open>local_n\<close> elements of \<open>local_x\<close> and of \<open>local_y\<close> hold \<open>s\<close> times their original
  values, and no other block of the heap (\<open>local_z\<close> in particular) is modified.
\<close>

theorem scalar_multiplication_mutates_both:
  assumes "x \<noteq> y" "h x = Some xs" "h y = Some ys"
    and "nat local_n \<le> length xs" "nat local_n \<le> length ys"
  shows "\<exists>h'. Parallel_scalar_multiplication x y scalar local_n h = Some h' \<and>
           h' x = Some (map (\<lambda>v. v * scalar) (take (nat local_n) xs) @ drop (nat local_n) xs) \<and>
           h' y = Some (map (\<lambda>v. v * scalar) (take (nat local_n) ys) @ drop (nat local_n) ys) \<and>
           (\<forall>z. z \<noteq> x \<and> z \<noteq> y \<longrightarrow> h' z = h z)"
  using Parallel_scalar_multiplication_eq [OF assms, of scalar] assms(1) by simp

theorem scalar_multiplication_mutates_both_witness:
  "\<exists>h'. Parallel_scalar_multiplication 1 2 (5 / 2) 3 heap0 = Some h' \<and>
           h' 1 = Some [5 / 2, 5, 15 / 2] \<and> h' 2 = Some [10, 25 / 2, 15] \<and>
           h' 3 = Some [9, 9, 9]"
  using scalar_multiplication_mutates_both [of 1 2 heap0 "[1, 2, 3]" "[4, 5, 6]" 3 "5 / 2"]
  by (auto simp: heap0_def)

text \<open>
  Claim C8. The partial dot product of two blocks is the sum of \<open>x[i] * y[i]\<close> over
  \<open>i\<close> in \<open>[0, local_n)\<close>, accumulated from \<open>0.0\<close> in ascending order of \<open>i\<close>. It and
  the multiplication by a scalar are functions of the contents of the blocks alone: two
  invocations on blocks with identical contents (in any two heaps, at any addresses, in
  any process) give identical results.
\<close>

theorem local_arithmetic_deterministic:
  assumes "h1 x1 = Some xs" "h1 y1 = Some ys" "h2 x2 = Some xs" "h2 y2 = Some ys"
    and "x1 \<noteq> y1" "x2 \<noteq> y2" "nat local_n \<le> length xs" "nat local_n \<le> length ys"
  shows "Parallel_dot_product_loop x1 y1 local_n 0 0 h1 =
           Some (foldl (\<lambda>a i. a + xs ! i * ys ! i) 0 [0..<nat local_n]) \<and>
         Parallel_dot_product_loop x2 y2 local_n 0 0 h2 = Parallel_dot_product_loop x1 y1 local_n 0 0 h1 \<and>
         (\<exists>h1' h2'. Parallel_scalar_multiplication x1 y1 scalar local_n h1 = Some h1' \<and>
                     Parallel_scalar_multiplication x2 y2 scalar local_n h2 = Some h2' \<and>
                     h1' x1 = h2' x2 \<and> h1' y1 = h2' y2)"
proof -
  have d1: "Parallel_dot_product_loop x1 y1 local_n 0 0 h1 =
              Some (foldl (\<lambda>a i. a + xs ! i * ys ! i) 0 [0..<nat local_n])"
    using assms(1,2,7,8) by (rule Parallel_dot_product_loop_correct)
  have d2: "Parallel_dot_product_loop x2 y2 local_n 0 0 h2 =
              Some (foldl (\<lambda>a i. a + xs ! i * ys ! i) 0 [0..<nat local_n])"
    using assms(3,4,7,8) by (rule Parallel_dot_product_loop_correct)
  note m1 = Parallel_scalar_multiplication_eq [OF assms(5) assms(1,2,7,8), of scalar]
  note m2 = Parallel_scalar_multiplication_eq [OF assms(6) assms(3,4,7,8), of scalar]
  show ?thesis using d1 d2 m1 m2 assms(5,6) by simp
qed

theorem local_arithmetic_deterministic_witness:
  "Parallel_dot_product_loop 1 2 3 0 0 heap0 = Some 32 \<and>
   Parallel_dot_product_loop 7 5 3 0 0 heap1 = Parallel_dot_product_loop 1 2 3 0 0 heap0 \<and>
   (\<exists>h1' h2'. Parallel_scalar_multiplication 1 2 2 3 heap0 = Some h1' \<and>
               Parallel_scalar_multiplication 7 5 2 3 heap1 = Some h2' \<and>
               h1' 1 = h2' 7 \<and> h1' 2 = h2' 5)"
  using local_arithmetic_deterministic [of heap0 1 "[1, 2, 3]" 2 "[4, 5, 6]" heap1 7 5 3 2]
  by (simp add: heap0_def heap1_def upt_conv_Cons)

end
